theory Spec2Isabelle
  imports Main "HOL-Library.Multiset" "HOL-Library.AList" "HOL-Library.List_Lexorder" "HOL-Library.Char_ord"
begin

section \<open>Package helpers: random sampling of mixes\<close>

text \<open>
  Go strings and byte slices are both sequences of bytes; a \<open>nil\<close> slice and an empty
  slice are the same value \<open>[]\<close> (the code only ever compares and concatenates them).
\<close>

type_synonym bytes = "char list"

text \<open>
  The two run-time panics the helpers can raise: an index expression out of range and a
  slice expression whose bounds are out of range.
\<close>

datatype panic = IndexOutOfRange | SliceBoundsOutOfRange

text \<open>
  \<^verbatim>\<open>for i, v := range permutation { permutedData[v] = slice[i] }\<close>

  The loop of \<open>Permute\<close>, at index \<open>i\<close> of the permutation, with the rest of the
  permutation still to visit. Both index expressions are bounds-checked, as Go does.
\<close>

primrec Permute_loop :: "'a list \<Rightarrow> nat \<Rightarrow> nat list \<Rightarrow> 'a list \<Rightarrow> panic + 'a list" where
  "Permute_loop slice i [] permutedData = Inr permutedData"
| "Permute_loop slice i (v # rest) permutedData =
     (if i < length slice \<and> v < length permutedData
      then Permute_loop slice (Suc i) rest (permutedData[v := slice ! i])
      else Inl IndexOutOfRange)"

text \<open>
  \<open>Permute\<close>. The element type \<open>config.MixPubs\<close> is a type parameter, \<open>zero\<close> its zero
  value (what \<open>make\<close> fills the new slice with), and \<open>rand_Perm\<close> is the draw of
  \<open>rand.Perm\<close> under the seed just taken from the clock: for each \<open>n\<close> some list of
  indices, which the library promises to be a permutation of \<open>0 ..< n\<close>.
\<close>

definition Permute :: "'a \<Rightarrow> (nat \<Rightarrow> nat list) \<Rightarrow> 'a list \<Rightarrow> panic + 'a list" where
  "Permute zero rand_Perm slice =
     (let permutedData = replicate (length slice) zero;
          permutation = rand_Perm (length slice)
      in Permute_loop slice 0 permutation permutedData)"

text \<open>
  \<open>RandomSample\<close>: \<^verbatim>\<open>permuted[:length]\<close> panics unless \<open>0 \<le> length \<le> cap(permuted)\<close>,
  and the capacity of the slice made by \<open>Permute\<close> is its length. The requested length
  is a Go \<open>int\<close>, so it may be negative.
\<close>

definition RandomSample :: "'a \<Rightarrow> (nat \<Rightarrow> nat list) \<Rightarrow> 'a list \<Rightarrow> int \<Rightarrow> panic + 'a list" where
  "RandomSample zero rand_Perm slice len =
     (case Permute zero rand_Perm slice of
        Inl p \<Rightarrow> Inl p
      | Inr permuted \<Rightarrow>
          if 0 \<le> len \<and> len \<le> int (length permuted)
          then Inr (take (nat len) permuted)
          else Inl SliceBoundsOutOfRange)"

section \<open>Package server: the provider\<close>

subsection \<open>Envelope flags\<close>

text \<open>
  The constant block of the provider, character for character. Three of the literals
  are a single escaped byte; the literal of \<open>TOKEN_FLAG\<close> has no backslash, so it is the
  three characters \<open>x\<close>, \<open>A\<close>, \<open>9\<close>.
\<close>

definition ASSIGNE_FLAG :: string where
  "ASSIGNE_FLAG = [CHR 0xA2]"

definition COMM_FLAG :: string where
  "COMM_FLAG = [CHR 0xC6]"

definition TOKEN_FLAG :: string where
  "TOKEN_FLAG = ''xA9''"

definition PULL_FLAG :: string where
  "PULL_FLAG = [CHR 0xFF]"

subsection \<open>Data\<close>

text \<open>
  Error values. \<open>ErrorNew\<close> is \<open>errors.New\<close>; the others are the errors that the
  libraries hand back (protocol buffers, the operating system, the network), each with
  its message.
\<close>

datatype error = ErrorNew string | ProtoError string | OSError string | NetError string

datatype log_entry = LogInfo string | LogWarning string | LogError error

text \<open>
  The messages of package \<open>config\<close> and the hop of package \<open>sphinx\<close> are declared
  outside the files at hand; each record has the fields that the provider reads.
\<close>

record ClientConfig =
  Id :: string
  Host :: string
  Port :: string
  PubKey :: bytes

record PullRequest =
  ClientId :: string
  Token :: bytes

record GeneralPacket =
  Flag :: string
  Data :: bytes

record Hop =
  Id :: string
  Address :: string

record ClientRecord =
  Id :: string
  Host :: string
  Port :: string
  PubKey :: bytes
  Token :: bytes

text \<open>
  Everything the provider calls but does not define. The pure helpers are functions;
  \<open>proto.Unmarshal\<close> into a \<open>GeneralPacket\<close> also hands back the message as far as it
  was filled, because \<open>HandleConnection\<close> goes on after an error. \<open>ProcessPacket\<close>
  (of the embedded \<open>node.Mix\<close>) delivers one value on each of its four channels.
  \<open>fault\<close> decides, for the \<open>n\<close>-th call into the operating system or the network made
  by the provider, whether that call fails for a reason outside the model (permissions,
  disk, an unreachable peer) and with which error.
\<close>

record env =
  MD5Hash :: "bytes \<Rightarrow> bytes"
  WrapWithFlag :: "string \<Rightarrow> bytes \<Rightarrow> error + bytes"
  Unmarshal_ClientConfig :: "bytes \<Rightarrow> error + ClientConfig"
  Unmarshal_PullRequest :: "bytes \<Rightarrow> error + PullRequest"
  Unmarshal_GeneralPacket :: "bytes \<Rightarrow> GeneralPacket \<times> error option"
  ProcessPacket :: "bytes \<Rightarrow> bytes \<times> Hop \<times> string \<times> error option"
  fault :: "nat \<Rightarrow> error option"

text \<open>
  The state the provider acts on: its map of registered clients; the directories of the
  file system, each a list of files (name and content), keyed by the path of the
  directory; the packets written to outgoing connections, with the address dialled; the
  log; and the number of operating-system and network calls made so far.

  A file path \<open>dir + "/" + name\<close> is kept as the pair of \<open>dir\<close> and \<open>name\<close>: client ids and
  message ids are taken to be single path components.
\<close>

record world =
  assignedClients :: "string \<rightharpoonup> ClientRecord"
  dirs :: "string \<rightharpoonup> (string \<times> bytes) list"
  wire :: "(string \<times> bytes) list"
  logs :: "log_entry list"
  calls :: nat

text \<open>Indexing a Go map with a missing key yields the zero value of the element type.\<close>

definition zero_ClientRecord :: ClientRecord where
  "zero_ClientRecord =
     \<lparr>ClientRecord.Id = [], ClientRecord.Host = [], ClientRecord.Port = [],
      ClientRecord.PubKey = [], ClientRecord.Token = []\<rparr>"

definition index_clients :: "(string \<rightharpoonup> ClientRecord) \<Rightarrow> string \<Rightarrow> ClientRecord" where
  "index_clients m k = (case m k of None \<Rightarrow> zero_ClientRecord | Some r \<Rightarrow> r)"

subsection \<open>Logging, operating system, network\<close>

definition log_Info :: "world \<Rightarrow> string \<Rightarrow> world" where
  "log_Info w msg = w\<lparr>logs := logs w @ [LogInfo msg]\<rparr>"

definition log_Warning :: "world \<Rightarrow> string \<Rightarrow> world" where
  "log_Warning w msg = w\<lparr>logs := logs w @ [LogWarning msg]\<rparr>"

definition log_Error :: "world \<Rightarrow> error \<Rightarrow> world" where
  "log_Error w e = w\<lparr>logs := logs w @ [LogError e]\<rparr>"

text \<open>One call into the operating system or the network: ask \<open>fault\<close>, count the call.\<close>

definition syscall :: "env \<Rightarrow> world \<Rightarrow> error option \<times> world" where
  "syscall env w = (fault env (calls w), w\<lparr>calls := Suc (calls w)\<rparr>)"

definition ENOENT :: error where
  "ENOENT = OSError ''no such file or directory''"

text \<open>
  Modelled from the spec: \<open>helpers.DirExists\<close> is not among the files at hand. As the
  provider uses it, it tells whether the inbox directory exists, or fails.
\<close>

definition DirExists :: "env \<Rightarrow> world \<Rightarrow> string \<Rightarrow> (error + bool) \<times> world" where
  "DirExists env w path =
     (case syscall env w of
        (Some e, w') \<Rightarrow> (Inl e, w')
      | (None, w') \<Rightarrow> (Inr (dirs w' path \<noteq> None), w'))"

text \<open>\<open>os.MkdirAll\<close>: an existing directory is left as it is.\<close>

definition os_MkdirAll :: "env \<Rightarrow> world \<Rightarrow> string \<Rightarrow> error option \<times> world" where
  "os_MkdirAll env w path =
     (case syscall env w of
        (Some e, w') \<Rightarrow> (Some e, w')
      | (None, w') \<Rightarrow>
          (None, case dirs w' path of
                   None \<Rightarrow> w'\<lparr>dirs := (dirs w')(path \<mapsto> [])\<rparr>
                 | Some d \<Rightarrow> w'))"

text \<open>\<open>ioutil.ReadDir\<close>: the entries of the directory, sorted by file name.\<close>

definition ReadDir :: "env \<Rightarrow> world \<Rightarrow> string \<Rightarrow> (error + string list) \<times> world" where
  "ReadDir env w path =
     (case syscall env w of
        (Some e, w') \<Rightarrow> (Inl e, w')
      | (None, w') \<Rightarrow>
          (case dirs w' path of
             None \<Rightarrow> (Inl ENOENT, w')
           | Some d \<Rightarrow> (Inr (sort (map fst d)), w')))"

definition ReadFile :: "env \<Rightarrow> world \<Rightarrow> string \<Rightarrow> string \<Rightarrow> (error + bytes) \<times> world" where
  "ReadFile env w path name =
     (case syscall env w of
        (Some e, w') \<Rightarrow> (Inl e, w')
      | (None, w') \<Rightarrow>
          (case dirs w' path of
             None \<Rightarrow> (Inl ENOENT, w')
           | Some d \<Rightarrow>
               (case map_of d name of
                  None \<Rightarrow> (Inl ENOENT, w')
                | Some dat \<Rightarrow> (Inr dat, w'))))"

text \<open>
  \<open>os.Create\<close>: the file is created, or truncated when it exists; the directory must
  exist.
\<close>

definition os_Create :: "env \<Rightarrow> world \<Rightarrow> string \<Rightarrow> string \<Rightarrow> error option \<times> world" where
  "os_Create env w path name =
     (case syscall env w of
        (Some e, w') \<Rightarrow> (Some e, w')
      | (None, w') \<Rightarrow>
          (case dirs w' path of
             None \<Rightarrow> (Some ENOENT, w')
           | Some d \<Rightarrow> (None, w'\<lparr>dirs := (dirs w')(path \<mapsto> AList.update name [] d)\<rparr>)))"

text \<open>\<open>file.Write\<close> on the file just created: its content becomes the bytes written.\<close>

definition file_Write :: "env \<Rightarrow> world \<Rightarrow> string \<Rightarrow> string \<Rightarrow> bytes \<Rightarrow> error option \<times> world" where
  "file_Write env w path name b =
     (case syscall env w of
        (Some e, w') \<Rightarrow> (Some e, w')
      | (None, w') \<Rightarrow>
          (case dirs w' path of
             None \<Rightarrow> (Some ENOENT, w')
           | Some d \<Rightarrow> (None, w'\<lparr>dirs := (dirs w')(path \<mapsto> AList.update name b d)\<rparr>)))"

text \<open>
  \<open>Send\<close>: only \<open>net.Dial\<close> can make it fail; the result of \<open>conn.Write\<close> is discarded.
\<close>

definition Send :: "env \<Rightarrow> world \<Rightarrow> bytes \<Rightarrow> string \<Rightarrow> error option \<times> world" where
  "Send env w packet address =
     (case syscall env w of
        (Some err, w') \<Rightarrow> (Some err, w')
      | (None, w') \<Rightarrow> (None, w'\<lparr>wire := wire w' @ [(address, packet)]\<rparr>))"

subsection \<open>Registration and authentication\<close>

definition RegisterNewClient ::
  "env \<Rightarrow> world \<Rightarrow> bytes \<Rightarrow> (error + bytes \<times> string) \<times> world" where
  "RegisterNewClient env w clientBytes =
     (case Unmarshal_ClientConfig env clientBytes of
        Inl err \<Rightarrow> (Inl err, w)
      | Inr clientConf \<Rightarrow>
          (let token = MD5Hash env (''TMP_Token'' @ ClientConfig.Id clientConf);
               record = \<lparr>ClientRecord.Id = ClientConfig.Id clientConf,
                         ClientRecord.Host = ClientConfig.Host clientConf,
                         ClientRecord.Port = ClientConfig.Port clientConf,
                         ClientRecord.PubKey = ClientConfig.PubKey clientConf,
                         ClientRecord.Token = token\<rparr>;
               w1 = w\<lparr>assignedClients := (assignedClients w)(ClientConfig.Id clientConf \<mapsto> record)\<rparr>;
               address = ClientConfig.Host clientConf @ '':'' @ ClientConfig.Port clientConf;
               path = ''./inboxes/'' @ ClientConfig.Id clientConf
           in case DirExists env w1 path of
                (Inl err, w2) \<Rightarrow> (Inl err, w2)
              | (Inr exists, w2) \<Rightarrow>
                  if exists = False
                  then (case os_MkdirAll env w2 path of
                          (Some err, w3) \<Rightarrow> (Inl err, w3)
                        | (None, w3) \<Rightarrow> (Inr (token, address), w3))
                  else (Inr (token, address), w2)))"

definition HandleAssignRequest :: "env \<Rightarrow> world \<Rightarrow> bytes \<Rightarrow> error option \<times> world" where
  "HandleAssignRequest env w packet =
     (case RegisterNewClient env (log_Info w ''Received assign request from the client'') packet of
        (Inl err, w1) \<Rightarrow> (Some err, w1)
      | (Inr (token, adr), w1) \<Rightarrow>
          (case WrapWithFlag env TOKEN_FLAG token of
             Inl err \<Rightarrow> (Some err, w1)
           | Inr tokenBytes \<Rightarrow> Send env w1 tokenBytes adr))"

definition AuthenticateUser :: "world \<Rightarrow> string \<Rightarrow> bytes \<Rightarrow> bool" where
  "AuthenticateUser w clientId clientToken =
     (if ClientRecord.Token (index_clients (assignedClients w) clientId) = clientToken
      then True else False)"

subsection \<open>Inboxes\<close>

text \<open>
  The loop of \<open>FetchMessages\<close> over the directory entries. The Go function returns a
  signal and an error; on every error the signal is the empty string, so the result is
  the error or the signal.
\<close>

fun FetchMessages_loop ::
  "env \<Rightarrow> string \<Rightarrow> string \<Rightarrow> string list \<Rightarrow> world \<Rightarrow> (error + string) \<times> world" where
  "FetchMessages_loop env clientId path [] w = (Inr ''SI'', w)"
| "FetchMessages_loop env clientId path (f # files) w =
     (case ReadFile env w path f of
        (Inl err, w1) \<Rightarrow> (Inl err, w1)
      | (Inr dat, w1) \<Rightarrow>
          (let address = ClientRecord.Host (index_clients (assignedClients w1) clientId) @ '':''
                           @ ClientRecord.Port (index_clients (assignedClients w1) clientId);
               w2 = log_Info w1 (''Found stored message for address '' @ address)
           in case WrapWithFlag env COMM_FLAG dat of
                Inl err \<Rightarrow> (Inl err, w2)
              | Inr msgBytes \<Rightarrow>
                  (case Send env w2 msgBytes address of
                     (Some err, w3) \<Rightarrow> (Inl err, w3)
                   | (None, w3) \<Rightarrow> FetchMessages_loop env clientId path files w3)))"

definition FetchMessages :: "env \<Rightarrow> world \<Rightarrow> string \<Rightarrow> (error + string) \<times> world" where
  "FetchMessages env w clientId =
     (let path = ''./inboxes/'' @ clientId
      in case DirExists env w path of
           (Inl err, w1) \<Rightarrow> (Inl err, w1)
         | (Inr exist, w1) \<Rightarrow>
             if exist = False then (Inr ''NI'', w1)
             else (case ReadDir env w1 path of
                     (Inl err, w2) \<Rightarrow> (Inl err, w2)
                   | (Inr files, w2) \<Rightarrow>
                       if length files = 0 then (Inr ''EI'', w2)
                       else FetchMessages_loop env clientId path files w2))"

definition HandlePullRequest :: "env \<Rightarrow> world \<Rightarrow> bytes \<Rightarrow> error option \<times> world" where
  "HandlePullRequest env w rqsBytes =
     (case Unmarshal_PullRequest env rqsBytes of
        Inl err \<Rightarrow> (Some err, w)
      | Inr request \<Rightarrow>
          (let w0 = log_Info w ('' Processing pull request: '' @ ClientId request @ '' ''
                                 @ PullRequest.Token request)
           in if AuthenticateUser w0 (ClientId request) (PullRequest.Token request) = True
              then (case FetchMessages env w0 (ClientId request) of
                      (Inl err, w1) \<Rightarrow> (Some err, w1)
                    | (Inr signal, w1) \<Rightarrow>
                        (None,
                         if signal = ''NI''
                         then log_Info w1 ''Inbox does not exist. Sending signal to client.''
                         else if signal = ''EI''
                         then log_Info w1 ''Inbox is empty. Sending info to the client.''
                         else if signal = ''SI''
                         then log_Info w1 ''All messages from the inbox succesfuly sent to the client.''
                         else w1))
              else (Some (ErrorNew ''authentication went wrong''),
                    log_Warning w0 ''Authentication went wrong'')))"

definition StoreMessage :: "env \<Rightarrow> world \<Rightarrow> bytes \<Rightarrow> string \<Rightarrow> string \<Rightarrow> error option \<times> world" where
  "StoreMessage env w message inboxId messageId =
     (let path = ''./inboxes/'' @ inboxId;
          fileName = messageId @ ''.txt''
      in case os_Create env w path fileName of
           (Some err, w1) \<Rightarrow> (Some err, w1)
         | (None, w1) \<Rightarrow>
             (case file_Write env w1 path fileName message of
                (Some err, w2) \<Rightarrow> (Some err, w2)
              | (None, w2) \<Rightarrow> (None, log_Info w2 ('' Stored message for '' @ inboxId))))"

subsection \<open>Sphinx packets\<close>

definition ForwardPacket :: "env \<Rightarrow> world \<Rightarrow> bytes \<Rightarrow> string \<Rightarrow> error option \<times> world" where
  "ForwardPacket env w sphinxPacket address =
     (case WrapWithFlag env COMM_FLAG sphinxPacket of
        Inl err \<Rightarrow> (Some err, w)
      | Inr packetBytes \<Rightarrow>
          (case Send env w packetBytes address of
             (Some err, w1) \<Rightarrow> (Some err, w1)
           | (None, w1) \<Rightarrow> (None, log_Info w1 '' Forwarded sphinx packet'')))"

definition ReceivedPacket :: "env \<Rightarrow> world \<Rightarrow> bytes \<Rightarrow> error option \<times> world" where
  "ReceivedPacket env w packet =
     (let w0 = log_Info w ''Received new sphinx packet''
      in case ProcessPacket env packet of
           (dePacket, nextHop, flag, err) \<Rightarrow>
             (case err of
                Some e \<Rightarrow> (Some e, w0)
              | None \<Rightarrow>
                  if flag = [CHR 0xF1] then ForwardPacket env w0 dePacket (Address nextHop)
                  else if flag = [CHR 0xF0]
                  then StoreMessage env w0 dePacket (Hop.Id nextHop) ''TMP_MESSAGE_ID''
                  else (None, log_Info w0 ''Sphinx packet flag not recognised'')))"

subsection \<open>Connections\<close>

text \<open>
  An accepted connection: the peer's address, the bytes the peer sent and the error, if
  any, of the single \<open>Read\<close> into the 1024-byte buffer.
\<close>

record conn =
  RemoteAddr :: string
  incoming :: bytes
  read_error :: "error option"

text \<open>
  \<open>HandleConnection\<close> yields the values it sends, or tries to send, on \<open>errs\<close>, in
  order. It does not return after sending an error: a failed read or a failed
  \<open>Unmarshal\<close> is reported and the packet, as far as it was filled, is dispatched all the
  same; the last statement sends \<open>nil\<close> in every case. The channel holds one value and
  the listener receives one, so a third send would block for ever; everything the
  handler does to the state comes before its third send.
\<close>

definition HandleConnection :: "env \<Rightarrow> world \<Rightarrow> conn \<Rightarrow> error option list \<times> world" where
  "HandleConnection env w c =
     (let buff = take 1024 (incoming c);
          sent1 = (case read_error c of Some err \<Rightarrow> [Some err] | None \<Rightarrow> []);
          (packet, uerr) = Unmarshal_GeneralPacket env buff;
          sent2 = (case uerr of Some err \<Rightarrow> [Some err] | None \<Rightarrow> []);
          (sent3, w') =
            (if Flag packet = ASSIGNE_FLAG
             then (case HandleAssignRequest env w (Data packet) of
                     (Some err, w1) \<Rightarrow> ([Some err], w1) | (None, w1) \<Rightarrow> ([], w1))
             else if Flag packet = COMM_FLAG
             then (case ReceivedPacket env w (Data packet) of
                     (Some err, w1) \<Rightarrow> ([Some err], w1) | (None, w1) \<Rightarrow> ([], w1))
             else if Flag packet = PULL_FLAG
             then (case HandlePullRequest env w (Data packet) of
                     (Some err, w1) \<Rightarrow> ([Some err], w1) | (None, w1) \<Rightarrow> ([], w1))
             else ([None], log_Info w ''Packet flag not recognised. Packet dropped''))
      in (sent1 @ sent2 @ sent3 @ [None], w'))"

text \<open>
  Whether the handler of a connection sends a value on \<open>errs\<close> before it dispatches
  the packet: it does so when the read fails or the message does not parse.
\<close>

definition reports_before_dispatch :: "env \<Rightarrow> conn \<Rightarrow> bool" where
  "reports_before_dispatch env c =
     (read_error c \<noteq> None \<or> snd (Unmarshal_GeneralPacket env (take 1024 (incoming c))) \<noteq> None)"

text \<open>
  What the accept loop has come to after a finite run of accept results.
  \<^item> \<open>Accepting\<close>: the loop is waiting in \<open>Accept\<close>, and no handler is running.
  \<^item> \<open>Overlapping\<close>: the loop has gone back to \<open>Accept\<close> while a handler was still
    running. From then on handlers run side by side on the unlocked \<open>assignedClients\<close>
    map and on the inboxes, and the Go runtime may end the process (\<open>concurrent map
    writes\<close>). The state given with this status is the one reached when every handler
    happens to finish before the next connection is handled; it is one of the possible
    outcomes, and the death of the process is another.
  \<^item> \<open>Blocked\<close>: the loop waits for ever for a value on \<open>errs\<close>.
  \<^item> \<open>Exited\<close>, \<open>Panicked\<close>: the process has ended, with an exit code or by a panic.
\<close>

datatype accepted = AcceptError error | Accepted conn

datatype status = Accepting | Overlapping | Blocked | Exited int | Panicked error

definition overlapping :: "status \<times> world \<Rightarrow> status \<times> world" where
  "overlapping r = (case r of (Accepting, w) \<Rightarrow> (Overlapping, w) | (s, w) \<Rightarrow> (s, w))"

text \<open>
  The provider's accept loop, over the results of the successive calls of \<open>Accept\<close>. The
  loop takes the handler's first value on \<open>errs\<close>, logs it when it is an error, and
  accepts again. When that first value was sent after the dispatch, the handler has
  nothing left to do to the state and the loop has in effect waited for it. When it was
  sent before the dispatch, the handler goes on while the loop accepts the next
  connection: the run is \<open>Overlapping\<close> from there.
\<close>

fun ListenForIncomingConnections :: "env \<Rightarrow> world \<Rightarrow> accepted list \<Rightarrow> status \<times> world" where
  "ListenForIncomingConnections env w [] = (Accepting, w)"
| "ListenForIncomingConnections env w (AcceptError err # rest) =
     ListenForIncomingConnections env (log_Error w err) rest"
| "ListenForIncomingConnections env w (Accepted c # rest) =
     (let w0 = log_Info w ('' Received new connection from '' @ RemoteAddr c)
      in case HandleConnection env w0 c of
           ([], w1) \<Rightarrow> (Blocked, w1)
         | (first # _, w1) \<Rightarrow>
             (let r = ListenForIncomingConnections env
                        (case first of Some err \<Rightarrow> log_Error w1 err | None \<Rightarrow> w1) rest
              in if reports_before_dispatch env c then overlapping r else r))"

section \<open>Package client: the accept loop\<close>




section \<open>Notions used in the statements\<close>

text \<open>
  The address a fetch dials for a client: host and port of the client's record, or of
  the zero record when the id is not registered.
\<close>

definition registered_address :: "world \<Rightarrow> string \<Rightarrow> string" where
  "registered_address w clientId =
     ClientRecord.Host (index_clients (assignedClients w) clientId) @ '':''
       @ ClientRecord.Port (index_clients (assignedClients w) clientId)"

text \<open>
  The content of a file, and the names of the files of a directory in the order of
  their creation (none when the directory does not exist).
\<close>

definition file_content :: "world \<Rightarrow> string \<Rightarrow> string \<Rightarrow> bytes option" where
  "file_content w path name = (case dirs w path of None \<Rightarrow> None | Some d \<Rightarrow> map_of d name)"

definition file_names :: "world \<Rightarrow> string \<Rightarrow> string list" where
  "file_names w path = (case dirs w path of None \<Rightarrow> [] | Some d \<Rightarrow> map fst d)"


text \<open>
  Between two states of the file system, no directory has gained a file other than one
  named \<open>TMP_MESSAGE_ID.txt\<close>, and none has lost a file.
\<close>

definition at_most_one_stored :: "world \<Rightarrow> world \<Rightarrow> bool" where
  "at_most_one_stored w w' =
     (\<forall>path. file_names w' path = file_names w path \<or>
             (file_names w' path = file_names w path @ [''TMP_MESSAGE_ID.txt''] \<and>
              ''TMP_MESSAGE_ID.txt'' \<notin> set (file_names w path)))"

section \<open>A concrete provider\<close>

text \<open>
  An environment in which no call fails, the envelope of a body is the flag followed by
  the body, the hash is stood in for by reversal, a pull request reads \<open>id|token\<close>, a
  general packet is its flag byte followed by its data, and a sphinx packet is its inner
  flag byte followed by \<open>next hop|payload\<close>. Two registration requests of the same client
  id are understood.
\<close>

definition env0 :: env where
  "env0 =
     \<lparr>MD5Hash = rev,
      WrapWithFlag = (\<lambda>flag b. Inr (flag @ b)),
      Unmarshal_ClientConfig =
        (\<lambda>b. if b = ''alice at 10.0.0.1:9001''
             then Inr \<lparr>ClientConfig.Id = ''alice'', ClientConfig.Host = ''10.0.0.1'',
                       ClientConfig.Port = ''9001'', ClientConfig.PubKey = ''k1''\<rparr>
             else if b = ''alice at 10.0.0.2:9002''
             then Inr \<lparr>ClientConfig.Id = ''alice'', ClientConfig.Host = ''10.0.0.2'',
                       ClientConfig.Port = ''9002'', ClientConfig.PubKey = ''k2''\<rparr>
             else Inl (ProtoError ''unexpected EOF'')),
      Unmarshal_PullRequest =
        (\<lambda>b. Inr \<lparr>ClientId = takeWhile (\<lambda>c. c \<noteq> CHR ''|'') b,
                   PullRequest.Token = drop 1 (dropWhile (\<lambda>c. c \<noteq> CHR ''|'') b)\<rparr>),
      Unmarshal_GeneralPacket =
        (\<lambda>b. case b of
               [] \<Rightarrow> (\<lparr>Flag = [], Data = []\<rparr>, Some (ProtoError ''unexpected EOF''))
             | c # rest \<Rightarrow> (\<lparr>Flag = [c], Data = rest\<rparr>, None)),
      ProcessPacket =
        (\<lambda>b. case b of
               [] \<Rightarrow> ([], \<lparr>Hop.Id = [], Address = []\<rparr>, [], Some (ErrorNew ''empty packet''))
             | c # rest \<Rightarrow>
                 (drop 1 (dropWhile (\<lambda>c. c \<noteq> CHR ''|'') rest),
                  \<lparr>Hop.Id = takeWhile (\<lambda>c. c \<noteq> CHR ''|'') rest,
                   Address = takeWhile (\<lambda>c. c \<noteq> CHR ''|'') rest\<rparr>,
                  [c], None)),
      fault = (\<lambda>n. None)\<rparr>"

text \<open>
  A provider that has just been constructed, and one where client \<open>alice\<close> is
  registered and has one message waiting.
\<close>

definition world_new :: world where
  "world_new = \<lparr>assignedClients = Map.empty, dirs = Map.empty, wire = [], logs = [], calls = 0\<rparr>"

definition world_alice :: world where
  "world_alice =
     \<lparr>assignedClients =
        [''alice'' \<mapsto> \<lparr>ClientRecord.Id = ''alice'', ClientRecord.Host = ''10.0.0.1'',
                       ClientRecord.Port = ''9001'', ClientRecord.PubKey = ''k1'',
                       ClientRecord.Token = ''secret''\<rparr>],
      dirs = [''./inboxes/alice'' \<mapsto> [(''TMP_MESSAGE_ID.txt'', ''hello'')]],
      wire = [], logs = [], calls = 0\<rparr>"

section \<open>Properties of the sampling helpers\<close>

lemma Permute_loop_length:
  "Permute_loop slice i vs pd = Inr r \<Longrightarrow> length r = length pd"
  by (induction vs arbitrary: i pd) (auto split: if_splits)

lemma Permute_loop_keeps:
  "Permute_loop slice i vs pd = Inr r \<Longrightarrow> j \<notin> set vs \<Longrightarrow> r ! j = pd ! j"
  by (induction vs arbitrary: i pd) (auto split: if_splits)

lemma Permute_loop_writes:
  "Permute_loop slice i vs pd = Inr r \<Longrightarrow> distinct vs \<Longrightarrow> k < length vs \<Longrightarrow>
   r ! (vs ! k) = slice ! (i + k)"
proof (induction vs arbitrary: i pd k)
  case Nil
  then show ?case by simp
next
  case (Cons v rest)
  from Cons.prems(1) have ok: "i < length slice" "v < length pd"
    and rec: "Permute_loop slice (Suc i) rest (pd[v := slice ! i]) = Inr r"
    by (auto split: if_splits)
  show ?case
  proof (cases k)
    case 0
    from Cons.prems(2) have "v \<notin> set rest" by simp
    with rec have "r ! v = (pd[v := slice ! i]) ! v" by (rule Permute_loop_keeps)
    with ok 0 show ?thesis by simp
  next
    case (Suc k')
    with Cons.prems have "distinct rest" "k' < length rest" by simp_all
    with rec have "r ! (rest ! k') = slice ! (Suc i + k')" by (rule Cons.IH)
    with Suc show ?thesis by simp
  qed
qed

lemma Permute_loop_total:
  "i + length vs \<le> length slice \<Longrightarrow> \<forall>v \<in> set vs. v < length pd \<Longrightarrow>
   \<exists>r. Permute_loop slice i vs pd = Inr r"
  by (induction vs arbitrary: i pd) auto

lemma perm_upt_facts:
  assumes "mset p = mset [0..<n]"
  shows "distinct p" and "length p = n" and "set p = {0..<n}"
proof -
  from assms show "distinct p" by (metis distinct_upt mset_eq_imp_distinct_iff)
  from assms show "length p = n" by (metis length_upt mset_eq_length minus_nat.diff_0)
  from assms show "set p = {0..<n}" by (metis mset_eq_setD set_upt)
qed

lemma Permute_is_permutation:
  assumes p: "mset (rand_Perm (length slice)) = mset [0..<length slice]"
  shows "\<exists>r. Permute zero rand_Perm slice = Inr r \<and> mset r = mset slice"
proof -
  let ?n = "length slice" and ?p = "rand_Perm (length slice)"
  note facts = perm_upt_facts [OF p]
  have "\<exists>r. Permute_loop slice 0 ?p (replicate ?n zero) = Inr r"
    by (rule Permute_loop_total) (simp_all add: facts)
  then obtain r where r: "Permute_loop slice 0 ?p (replicate ?n zero) = Inr r" ..
  then have len: "length r = ?n" by (simp add: Permute_loop_length)
  have "map ((!) r) ?p = slice"
  proof (rule nth_equalityI)
    show "length (map ((!) r) ?p) = length slice" by (simp add: facts)
  next
    fix k assume "k < length (map ((!) r) ?p)"
    then have k: "k < length ?p" by simp
    from Permute_loop_writes [OF r facts(1) k] k show "map ((!) r) ?p ! k = slice ! k"
      by simp
  qed
  then have "mset slice = image_mset ((!) r) (mset ?p)" by (metis mset_map)
  also have "\<dots> = image_mset ((!) r) (mset [0..<length r])" by (simp add: p len)
  also have "\<dots> = mset (map ((!) r) [0..<length r])" by simp
  also have "\<dots> = mset r" by (simp add: map_nth)
  finally have "mset r = mset slice" by simp
  with r show ?thesis by (simp add: Permute_def)
qed

lemma mset_take_subseteq: "mset (take n xs) \<subseteq># mset xs"
proof -
  have "mset xs = mset (take n xs) + mset (drop n xs)"
    by (metis append_take_drop_id mset_append)
  then show ?thesis by simp
qed

text \<open>
  Claim C7, as amended. Whenever \<open>rand.Perm\<close> delivers a permutation of the indices:
  for \<open>0 \<le> L \<le> |mixes|\<close>, \<open>RandomSample\<close> returns exactly \<open>L\<close> entries taken from
  \<open>mixes\<close> without repetition of positions (a sub-multiset of \<open>mixes\<close>), which are
  pairwise distinct when the entries of \<open>mixes\<close> are; for \<open>|mixes| < L\<close> (and for a
  negative \<open>L\<close>) it returns no value and no error: the slice expression panics.
\<close>

theorem RandomSample_distinct_or_panic:
  assumes "mset (rand_Perm (length mixes)) = mset [0..<length mixes]"
  shows "(0 \<le> L \<and> L \<le> int (length mixes) \<longrightarrow>
           (\<exists>xs. RandomSample zero rand_Perm mixes L = Inr xs \<and> length xs = nat L \<and>
                 mset xs \<subseteq># mset mixes \<and> (distinct mixes \<longrightarrow> distinct xs)))
       \<and> (L < 0 \<or> int (length mixes) < L \<longrightarrow>
           RandomSample zero rand_Perm mixes L = Inl SliceBoundsOutOfRange)"
proof -
  from Permute_is_permutation [where rand_Perm = rand_Perm and slice = mixes, OF assms]
  obtain r where r: "Permute zero rand_Perm mixes = Inr r" and m: "mset r = mset mixes"
    by blast
  from m have len: "length r = length mixes" by (rule mset_eq_length)
  from m have dist: "distinct mixes \<Longrightarrow> distinct r" by (metis mset_eq_imp_distinct_iff)
  have sub: "mset (take (nat L) r) \<subseteq># mset mixes"
    using mset_take_subseteq [of "nat L" r] by (simp add: m)
  show ?thesis
    using r len dist sub by (auto simp: RandomSample_def)
qed

theorem RandomSample_distinct_or_panic_witness:
  "mset ((\<lambda>n. rev [0..<n]) (length [''m1'', ''m2'', ''m3'']))
     = mset [0..<length [''m1'', ''m2'', ''m3'']]
   \<and> (0::int) \<le> 2 \<and> (2::int) \<le> int (length [''m1'', ''m2'', ''m3''])
   \<and> distinct [''m1'', ''m2'', ''m3'']
   \<and> (\<exists>xs. RandomSample '''' (\<lambda>n. rev [0..<n]) [''m1'', ''m2'', ''m3''] 2 = Inr xs \<and>
            length xs = 2 \<and> mset xs \<subseteq># mset [''m1'', ''m2'', ''m3''] \<and> distinct xs)
   \<and> RandomSample '''' (\<lambda>n. rev [0..<n]) [''m1'', ''m2'', ''m3''] 2 = Inr [''m3'', ''m2'']
   \<and> int (length [''m1'', ''m2'', ''m3'']) < 4
   \<and> RandomSample '''' (\<lambda>n. rev [0..<n]) [''m1'', ''m2'', ''m3''] 4 = Inl SliceBoundsOutOfRange"
proof -
  have p: "mset ((\<lambda>n. rev [0..<n]) (length [''m1'', ''m2'', ''m3'']))
             = mset [0..<length [''m1'', ''m2'', ''m3'']]"
    by simp
  have d: "distinct [''m1'', ''m2'', ''m3'']" by simp
  have a: "RandomSample '''' (\<lambda>n. rev [0..<n]) [''m1'', ''m2'', ''m3''] 2 = Inr [''m3'', ''m2'']"
    by (simp add: RandomSample_def Permute_def upt_rec)
  from RandomSample_distinct_or_panic
         [where rand_Perm = "\<lambda>n. rev [0..<n]" and mixes = "[''m1'', ''m2'', ''m3'']"
            and L = 2 and zero = "''''", OF p] d
  have two: "\<exists>xs. RandomSample '''' (\<lambda>n. rev [0..<n]) [''m1'', ''m2'', ''m3''] 2 = Inr xs \<and>
               length xs = 2 \<and> mset xs \<subseteq># mset [''m1'', ''m2'', ''m3''] \<and> distinct xs"
    by simp
  from RandomSample_distinct_or_panic
         [where rand_Perm = "\<lambda>n. rev [0..<n]" and mixes = "[''m1'', ''m2'', ''m3'']"
            and L = 4 and zero = "''''", OF p]
  have four: "RandomSample '''' (\<lambda>n. rev [0..<n]) [''m1'', ''m2'', ''m3''] 4
                = Inl SliceBoundsOutOfRange"
    by simp
  from p d a two four show ?thesis by simp
qed

text \<open>
  Claim C7, as stated, fails: asked for two mixes out of a list of one, \<open>RandomSample\<close>
  does not fail with an error value but panics on the slice bounds.
\<close>

theorem RandomSample_short_list_counterexample:
  "RandomSample '''' (\<lambda>n. [0..<n]) [''m1''] 2 = Inl SliceBoundsOutOfRange"
  by (simp add: RandomSample_def Permute_def)

section \<open>Basic facts about the provider\<close>

subsection \<open>The calls into the operating system and the network, in closed form\<close>

lemma log_Info_simps [simp]:
  "dirs (log_Info w m) = dirs w" "assignedClients (log_Info w m) = assignedClients w"
  "wire (log_Info w m) = wire w" "calls (log_Info w m) = calls w"
  "logs (log_Info w m) = logs w @ [LogInfo m]"
  by (simp_all add: log_Info_def)

lemma DirExists_eq:
  "DirExists env w path =
     (case fault env (calls w) of
        Some e \<Rightarrow> (Inl e, w\<lparr>calls := Suc (calls w)\<rparr>)
      | None \<Rightarrow> (Inr (dirs w path \<noteq> None), w\<lparr>calls := Suc (calls w)\<rparr>))"
  by (simp add: DirExists_def syscall_def split: option.splits)

lemma ReadDir_eq:
  "ReadDir env w path =
     (case fault env (calls w) of
        Some e \<Rightarrow> (Inl e, w\<lparr>calls := Suc (calls w)\<rparr>)
      | None \<Rightarrow>
          (case dirs w path of
             None \<Rightarrow> (Inl ENOENT, w\<lparr>calls := Suc (calls w)\<rparr>)
           | Some d \<Rightarrow> (Inr (sort (map fst d)), w\<lparr>calls := Suc (calls w)\<rparr>)))"
  by (simp add: ReadDir_def syscall_def split: option.splits)

lemma Send_eq:
  "Send env w packet address =
     (case fault env (calls w) of
        Some err \<Rightarrow> (Some err, w\<lparr>calls := Suc (calls w)\<rparr>)
      | None \<Rightarrow> (None, w\<lparr>calls := Suc (calls w), wire := wire w @ [(address, packet)]\<rparr>))"
  by (simp add: Send_def syscall_def split: option.splits)

lemma os_Create_eq:
  "os_Create env w path name =
     (case fault env (calls w) of
        Some e \<Rightarrow> (Some e, w\<lparr>calls := Suc (calls w)\<rparr>)
      | None \<Rightarrow>
          (case dirs w path of
             None \<Rightarrow> (Some ENOENT, w\<lparr>calls := Suc (calls w)\<rparr>)
           | Some d \<Rightarrow> (None, w\<lparr>calls := Suc (calls w),
                                 dirs := (dirs w)(path \<mapsto> AList.update name [] d)\<rparr>)))"
  by (simp add: os_Create_def syscall_def split: option.splits)

lemma file_Write_eq:
  "file_Write env w path name b =
     (case fault env (calls w) of
        Some e \<Rightarrow> (Some e, w\<lparr>calls := Suc (calls w)\<rparr>)
      | None \<Rightarrow>
          (case dirs w path of
             None \<Rightarrow> (Some ENOENT, w\<lparr>calls := Suc (calls w)\<rparr>)
           | Some d \<Rightarrow> (None, w\<lparr>calls := Suc (calls w),
                                 dirs := (dirs w)(path \<mapsto> AList.update name b d)\<rparr>)))"
  by (simp add: file_Write_def syscall_def split: option.splits)

lemma os_MkdirAll_eq:
  "os_MkdirAll env w path =
     (case fault env (calls w) of
        Some e \<Rightarrow> (Some e, w\<lparr>calls := Suc (calls w)\<rparr>)
      | None \<Rightarrow>
          (None, case dirs w path of
                   None \<Rightarrow> w\<lparr>calls := Suc (calls w), dirs := (dirs w)(path \<mapsto> [])\<rparr>
                 | Some d \<Rightarrow> w\<lparr>calls := Suc (calls w)\<rparr>))"
  by (simp add: os_MkdirAll_def syscall_def split: option.splits)

lemma Send_frame:
  "Send env w packet address = (r, w') \<Longrightarrow>
   dirs w' = dirs w \<and> assignedClients w' = assignedClients w \<and> logs w' = logs w \<and>
   wire w' = (case r of None \<Rightarrow> wire w @ [(address, packet)] | Some e \<Rightarrow> wire w)"
  by (auto simp: Send_def syscall_def split: option.splits)

lemma DirExists_frame:
  "DirExists env w path = (r, w') \<Longrightarrow>
   w' = w\<lparr>calls := Suc (calls w)\<rparr> \<and> (\<forall>b. r = Inr b \<longrightarrow> b = (dirs w path \<noteq> None))"
  by (auto simp: DirExists_def syscall_def split: option.splits)

lemma os_MkdirAll_frame:
  "os_MkdirAll env w path = (r, w') \<Longrightarrow>
   assignedClients w' = assignedClients w \<and> wire w' = wire w \<and> logs w' = logs w"
  by (auto simp: os_MkdirAll_def syscall_def split: option.splits)

lemma ReadFile_world:
  "ReadFile env w path name = (r, w') \<Longrightarrow> w' = w\<lparr>calls := Suc (calls w)\<rparr>"
  by (auto simp: ReadFile_def syscall_def split: option.splits)

lemma ReadFile_Inr:
  "ReadFile env w path name = (Inr dat, w') \<Longrightarrow> file_content w path name = Some dat"
  by (auto simp: ReadFile_def syscall_def file_content_def split: option.splits)

lemma StoreMessage_eq:
  "StoreMessage env w message inboxId messageId =
     (let path = ''./inboxes/'' @ inboxId; fileName = messageId @ ''.txt'' in
      case fault env (calls w) of
        Some e \<Rightarrow> (Some e, w\<lparr>calls := Suc (calls w)\<rparr>)
      | None \<Rightarrow>
          (case dirs w path of
             None \<Rightarrow> (Some ENOENT, w\<lparr>calls := Suc (calls w)\<rparr>)
           | Some d \<Rightarrow>
               (case fault env (Suc (calls w)) of
                  Some e \<Rightarrow>
                    (Some e, w\<lparr>calls := Suc (Suc (calls w)),
                               dirs := (dirs w)(path \<mapsto> AList.update fileName [] d)\<rparr>)
                | None \<Rightarrow>
                    (None, w\<lparr>calls := Suc (Suc (calls w)),
                             dirs := (dirs w)(path \<mapsto> AList.update fileName message d),
                             logs := logs w @ [LogInfo ('' Stored message for '' @ inboxId)]\<rparr>))))"
  by (simp add: StoreMessage_def Let_def os_Create_eq file_Write_eq log_Info_def
           split: option.splits)

lemma ForwardPacket_eq:
  "ForwardPacket env w sphinxPacket address =
     (case WrapWithFlag env COMM_FLAG sphinxPacket of
        Inl err \<Rightarrow> (Some err, w)
      | Inr packetBytes \<Rightarrow>
          (case fault env (calls w) of
             Some err \<Rightarrow> (Some err, w\<lparr>calls := Suc (calls w)\<rparr>)
           | None \<Rightarrow>
               (None, w\<lparr>calls := Suc (calls w), wire := wire w @ [(address, packetBytes)],
                        logs := logs w @ [LogInfo '' Forwarded sphinx packet'']\<rparr>)))"
  by (simp add: ForwardPacket_def Send_eq log_Info_def split: sum.splits option.splits)

subsection \<open>The concrete provider\<close>

lemma env0_simps:
  "MD5Hash env0 = rev"
  "WrapWithFlag env0 = (\<lambda>flag b. Inr (flag @ b))"
  "fault env0 = (\<lambda>n. None)"
  "Unmarshal_ClientConfig env0 ''alice at 10.0.0.1:9001'' =
     Inr \<lparr>ClientConfig.Id = ''alice'', ClientConfig.Host = ''10.0.0.1'',
          ClientConfig.Port = ''9001'', ClientConfig.PubKey = ''k1''\<rparr>"
  "Unmarshal_ClientConfig env0 ''alice at 10.0.0.2:9002'' =
     Inr \<lparr>ClientConfig.Id = ''alice'', ClientConfig.Host = ''10.0.0.2'',
          ClientConfig.Port = ''9002'', ClientConfig.PubKey = ''k2''\<rparr>"
  "Unmarshal_PullRequest env0 ''alice|guess'' =
     Inr \<lparr>ClientId = ''alice'', PullRequest.Token = ''guess''\<rparr>"
  "ProcessPacket env0 (c # ''alice|hi'') =
     (''hi'', \<lparr>Hop.Id = ''alice'', Address = ''alice''\<rparr>, [c], None)"
  "ProcessPacket env0 (c # ''alice|ho'') =
     (''ho'', \<lparr>Hop.Id = ''alice'', Address = ''alice''\<rparr>, [c], None)"
  "ProcessPacket env0 (c # ''10.0.0.7:9000|onion'') =
     (''onion'', \<lparr>Hop.Id = ''10.0.0.7:9000'', Address = ''10.0.0.7:9000''\<rparr>, [c], None)"
  by (simp_all add: env0_def)

lemma world_alice_simps:
  "assignedClients world_alice ''bob'' = None"
  "index_clients (assignedClients world_alice) ''alice'' =
     \<lparr>ClientRecord.Id = ''alice'', ClientRecord.Host = ''10.0.0.1'',
      ClientRecord.Port = ''9001'', ClientRecord.PubKey = ''k1'',
      ClientRecord.Token = ''secret''\<rparr>"
  "dirs world_alice ''./inboxes/alice'' = Some [(''TMP_MESSAGE_ID.txt'', ''hello'')]"
  "wire world_alice = []" "logs world_alice = []" "calls world_alice = 0"
  by (simp_all add: world_alice_def index_clients_def)

section \<open>Envelope flags\<close>

text \<open>
  Claim C5. \<open>ASSIGNE_FLAG\<close>, \<open>COMM_FLAG\<close> and \<open>PULL_FLAG\<close> are the single bytes
  \<open>0xA2\<close>, \<open>0xC6\<close> and \<open>0xFF\<close>. \<open>TOKEN_FLAG\<close> is not the single byte \<open>0xA9\<close> but the
  three bytes \<open>0x78 0x41 0x39\<close> (the text \<open>xA9\<close>), and that text is the flag of the
  envelope sent back after a registration.
\<close>

theorem flag_constants:
  "map of_char ASSIGNE_FLAG = [0xA2 :: nat] \<and> map of_char COMM_FLAG = [0xC6 :: nat]
   \<and> map of_char PULL_FLAG = [0xFF :: nat]
   \<and> map of_char TOKEN_FLAG = [0x78, 0x41, 0x39 :: nat]
   \<and> length TOKEN_FLAG = 3 \<and> TOKEN_FLAG \<noteq> [CHR 0xA9]
   \<and> wire (snd (HandleAssignRequest env0 world_new ''alice at 10.0.0.1:9001''))
       = [(''10.0.0.1:9001'', ''xA9'' @ ''ecilanekoT_PMT'')]"
  by (simp add: ASSIGNE_FLAG_def COMM_FLAG_def PULL_FLAG_def TOKEN_FLAG_def
        HandleAssignRequest_def RegisterNewClient_def Let_def env0_simps DirExists_eq
        os_MkdirAll_eq Send_eq world_new_def)

section \<open>Registration and authentication\<close>

text \<open>
  Claim C3. For a client id that is not in \<open>assignedClients\<close>, \<open>AuthenticateUser\<close>
  returns true for the empty token: the record found is the zero record, whose token is
  empty, and the comparison is equality of bytes.
\<close>

theorem AuthenticateUser_unregistered_empty_token:
  "assignedClients w clientId = None \<Longrightarrow> AuthenticateUser w clientId [] = True"
  by (simp add: AuthenticateUser_def index_clients_def zero_ClientRecord_def)

theorem AuthenticateUser_unregistered_empty_token_witness:
  "assignedClients world_alice ''bob'' = None \<and> AuthenticateUser world_alice ''bob'' [] = True"
  using AuthenticateUser_unregistered_empty_token [of world_alice "''bob''"]
  by (simp add: world_alice_simps)

lemma RegisterNewClient_token:
  assumes "RegisterNewClient env w clientBytes = (Inr (token, address), w')"
  shows "\<exists>clientConf. Unmarshal_ClientConfig env clientBytes = Inr clientConf \<and>
           token = MD5Hash env (''TMP_Token'' @ ClientConfig.Id clientConf) \<and>
           address = ClientConfig.Host clientConf @ '':'' @ ClientConfig.Port clientConf \<and>
           ClientRecord.Token (index_clients (assignedClients w') (ClientConfig.Id clientConf)) = token"
proof (cases "Unmarshal_ClientConfig env clientBytes")
  case (Inl err)
  with assms show ?thesis by (simp add: RegisterNewClient_def)
next
  case (Inr clientConf)
  define tok where "tok = MD5Hash env (''TMP_Token'' @ ClientConfig.Id clientConf)"
  define w1 where "w1 = w\<lparr>assignedClients := (assignedClients w)(ClientConfig.Id clientConf \<mapsto>
      \<lparr>ClientRecord.Id = ClientConfig.Id clientConf,
       ClientRecord.Host = ClientConfig.Host clientConf,
       ClientRecord.Port = ClientConfig.Port clientConf,
       ClientRecord.PubKey = ClientConfig.PubKey clientConf,
       ClientRecord.Token = tok\<rparr>)\<rparr>"
  define path where "path = ''./inboxes/'' @ ClientConfig.Id clientConf"
  obtain r w2 where d: "DirExists env w1 path = (r, w2)" by (cases "DirExists env w1 path")
  then have w2: "assignedClients w2 = assignedClients w1" by (auto dest: DirExists_frame)
  obtain r3 w3 where m: "os_MkdirAll env w2 path = (r3, w3)" by (cases "os_MkdirAll env w2 path")
  then have w3: "assignedClients w3 = assignedClients w2" by (auto dest: os_MkdirAll_frame)
  from assms Inr d m
  have "token = tok \<and> address = ClientConfig.Host clientConf @ '':'' @ ClientConfig.Port clientConf
        \<and> (w' = w2 \<or> w' = w3)"
    by (auto simp: RegisterNewClient_def Let_def tok_def w1_def path_def
             split: sum.splits if_splits option.splits)
  moreover have "ClientRecord.Token (index_clients (assignedClients w1) (ClientConfig.Id clientConf)) = tok"
    by (simp add: w1_def index_clients_def)
  ultimately show ?thesis using Inr w2 w3 by (auto simp: tok_def)
qed

text \<open>
  Claim C1. The token is a function of the client id alone (the hash of \<open>TMP_Token\<close>
  followed by the id). So two registrations of one id return the same token, and the
  token returned by the first still authenticates after the second: the first token is
  not invalidated.
\<close>

theorem reregistration_returns_same_token:
  assumes "Unmarshal_ClientConfig env bytes1 = Inr conf1"
      and "Unmarshal_ClientConfig env bytes2 = Inr conf2"
      and "ClientConfig.Id conf1 = ClientConfig.Id conf2"
      and "RegisterNewClient env w bytes1 = (Inr (token1, address1), w1)"
      and "RegisterNewClient env w1 bytes2 = (Inr (token2, address2), w2)"
  shows "token2 = token1 \<and> AuthenticateUser w2 (ClientConfig.Id conf1) token1 = True"
  using RegisterNewClient_token [OF assms(4)] RegisterNewClient_token [OF assms(5)] assms(1-3)
  by (auto simp: AuthenticateUser_def)

theorem reregistration_returns_same_token_witness:
  "fst (RegisterNewClient env0 world_new ''alice at 10.0.0.1:9001'')
     = Inr (''ecilanekoT_PMT'', ''10.0.0.1:9001'')
   \<and> fst (RegisterNewClient env0 (snd (RegisterNewClient env0 world_new ''alice at 10.0.0.1:9001''))
            ''alice at 10.0.0.2:9002'')
     = Inr (''ecilanekoT_PMT'', ''10.0.0.2:9002'')
   \<and> AuthenticateUser
        (snd (RegisterNewClient env0 (snd (RegisterNewClient env0 world_new ''alice at 10.0.0.1:9001''))
                ''alice at 10.0.0.2:9002''))
        ''alice'' ''ecilanekoT_PMT'' = True"
proof -
  let ?r1 = "RegisterNewClient env0 world_new ''alice at 10.0.0.1:9001''"
  let ?r2 = "RegisterNewClient env0 (snd ?r1) ''alice at 10.0.0.2:9002''"
  have f1: "fst ?r1 = Inr (''ecilanekoT_PMT'', ''10.0.0.1:9001'')"
    by (simp add: RegisterNewClient_def Let_def env0_simps DirExists_eq os_MkdirAll_eq
          world_new_def)
  have f2: "fst ?r2 = Inr (''ecilanekoT_PMT'', ''10.0.0.2:9002'')"
    by (simp add: RegisterNewClient_def Let_def env0_simps DirExists_eq os_MkdirAll_eq
          world_new_def)
  from f1 have h1: "?r1 = (Inr (''ecilanekoT_PMT'', ''10.0.0.1:9001''), snd ?r1)"
    by (metis prod.collapse)
  from f2 have h2: "?r2 = (Inr (''ecilanekoT_PMT'', ''10.0.0.2:9002''), snd ?r2)"
    by (metis prod.collapse)
  from reregistration_returns_same_token [OF env0_simps(4) env0_simps(5) _ h1 h2] f1 f2
  show ?thesis by simp
qed

text \<open>
  Claim C4, as amended. A pull request whose token fails authentication is answered
  with the error \<open>authentication went wrong\<close>, returned to the caller of
  \<open>HandlePullRequest\<close>; the request and a warning are logged, and nothing else changes: no
  connection is dialled, nothing is written to the client, the inbox is not read.
\<close>

theorem HandlePullRequest_auth_failure:
  assumes "Unmarshal_PullRequest env rqsBytes = Inr request"
      and "AuthenticateUser w (ClientId request) (PullRequest.Token request) = False"
  shows "HandlePullRequest env w rqsBytes =
           (Some (ErrorNew ''authentication went wrong''),
            w\<lparr>logs := logs w @ [LogInfo ('' Processing pull request: '' @ ClientId request @ '' ''
                                          @ PullRequest.Token request),
                                 LogWarning ''Authentication went wrong'']\<rparr>)"
  using assms
  by (simp add: HandlePullRequest_def Let_def AuthenticateUser_def log_Info_def log_Warning_def)

theorem HandlePullRequest_auth_failure_witness:
  "Unmarshal_PullRequest env0 ''alice|guess''
     = Inr \<lparr>ClientId = ''alice'', PullRequest.Token = ''guess''\<rparr>
   \<and> AuthenticateUser world_alice ''alice'' ''guess'' = False
   \<and> HandlePullRequest env0 world_alice ''alice|guess'' =
       (Some (ErrorNew ''authentication went wrong''),
        world_alice\<lparr>logs := [LogInfo '' Processing pull request: alice guess'',
                              LogWarning ''Authentication went wrong'']\<rparr>)"
proof -
  have a: "AuthenticateUser world_alice (ClientId \<lparr>ClientId = ''alice'', PullRequest.Token = ''guess''\<rparr>)
             (PullRequest.Token \<lparr>ClientId = ''alice'', PullRequest.Token = ''guess''\<rparr>) = False"
    by (simp add: AuthenticateUser_def world_alice_simps)
  from HandlePullRequest_auth_failure [OF env0_simps(6) a] a show ?thesis
    by (simp add: env0_simps world_alice_simps)
qed

text \<open>
  Claim C4, as stated, fails: a pull with a wrong token for \<open>alice\<close> yields the error
  and leaves the wire empty; no envelope goes back to the client.
\<close>

theorem HandlePullRequest_no_reply_counterexample:
  "fst (HandlePullRequest env0 world_alice ''alice|guess'')
     = Some (ErrorNew ''authentication went wrong'')
   \<and> wire (snd (HandlePullRequest env0 world_alice ''alice|guess'')) = []"
  by (simp add: HandlePullRequest_def Let_def env0_simps AuthenticateUser_def world_alice_simps
        log_Warning_def)

section \<open>Fetching an inbox\<close>

lemma FetchMessages_loop_step:
  assumes "FetchMessages_loop env clientId path (f # files) w = (Inr signal, w')"
  obtains dat m w3 where
    "file_content w path f = Some dat" "WrapWithFlag env COMM_FLAG dat = Inr m"
    "dirs w3 = dirs w" "assignedClients w3 = assignedClients w"
    "wire w3 = wire w @ [(registered_address w clientId, m)]"
    "FetchMessages_loop env clientId path files w3 = (Inr signal, w')"
proof -
  obtain r1 w1 where rf: "ReadFile env w path f = (r1, w1)" by (cases "ReadFile env w path f")
  with assms obtain dat where r1: "r1 = Inr dat" by (cases r1) simp_all
  from rf have w1: "w1 = w\<lparr>calls := Suc (calls w)\<rparr>" by (rule ReadFile_world)
  have adr: "registered_address w1 clientId = registered_address w clientId"
    by (simp add: w1 registered_address_def)
  let ?w2 = "log_Info w1 (''Found stored message for address '' @ registered_address w clientId)"
  from assms rf r1 adr obtain m where m: "WrapWithFlag env COMM_FLAG dat = Inr m"
    by (cases "WrapWithFlag env COMM_FLAG dat") (simp_all add: registered_address_def)
  obtain r3 w3 where s: "Send env ?w2 m (registered_address w clientId) = (r3, w3)"
    by (cases "Send env ?w2 m (registered_address w clientId)")
  from assms rf r1 adr m s have r3: "r3 = None"
    by (cases r3) (simp_all add: registered_address_def)
  from assms rf r1 adr m s r3
  have loop: "FetchMessages_loop env clientId path files w3 = (Inr signal, w')"
    by (simp add: registered_address_def)
  from Send_frame [OF s] r3 w1
  have "dirs w3 = dirs w" "assignedClients w3 = assignedClients w"
       "wire w3 = wire w @ [(registered_address w clientId, m)]"
    by simp_all
  with that ReadFile_Inr rf r1 m loop show thesis by blast
qed

lemma FetchMessages_loop_sent:
  "FetchMessages_loop env clientId path files w = (Inr signal, w') \<Longrightarrow>
   signal = ''SI'' \<and>
   (\<exists>msgs. wire w' = wire w @ map (Pair (registered_address w clientId)) msgs \<and>
      list_all2 (\<lambda>name m. \<exists>dat. file_content w path name = Some dat \<and>
                               WrapWithFlag env COMM_FLAG dat = Inr m) files msgs)"
proof (induction files arbitrary: w)
  case Nil
  then show ?case by simp
next
  case (Cons f files)
  from Cons.prems obtain dat m w3 where
    step: "file_content w path f = Some dat" "WrapWithFlag env COMM_FLAG dat = Inr m"
      "dirs w3 = dirs w" "assignedClients w3 = assignedClients w"
      "wire w3 = wire w @ [(registered_address w clientId, m)]"
    and rest: "FetchMessages_loop env clientId path files w3 = (Inr signal, w')"
    by (rule FetchMessages_loop_step)
  from step(3,4) have same: "registered_address w3 clientId = registered_address w clientId"
    "\<And>n. file_content w3 path n = file_content w path n"
    by (simp_all add: registered_address_def file_content_def)
  from Cons.IH [OF rest] same obtain msgs where
    sig: "signal = ''SI''"
    and msgs: "wire w' = wire w3 @ map (Pair (registered_address w clientId)) msgs"
      "list_all2 (\<lambda>name m. \<exists>dat. file_content w path name = Some dat \<and>
                               WrapWithFlag env COMM_FLAG dat = Inr m) files msgs"
    by auto
  from msgs step have
    "wire w' = wire w @ map (Pair (registered_address w clientId)) (m # msgs) \<and>
     list_all2 (\<lambda>name m. \<exists>dat. file_content w path name = Some dat \<and>
                               WrapWithFlag env COMM_FLAG dat = Inr m) (f # files) (m # msgs)"
    by simp
  with sig show ?case by blast
qed

lemma FetchMessages_loop_dirs:
  "dirs (snd (FetchMessages_loop env clientId path files w)) = dirs w \<and>
   assignedClients (snd (FetchMessages_loop env clientId path files w)) = assignedClients w"
proof (induction files arbitrary: w)
  case Nil
  then show ?case by simp
next
  case (Cons f files)
  obtain r1 w1 where rf: "ReadFile env w path f = (r1, w1)" by (cases "ReadFile env w path f")
  then have w1: "w1 = w\<lparr>calls := Suc (calls w)\<rparr>" by (rule ReadFile_world)
  show ?case
  proof (cases r1)
    case (Inl err)
    with rf w1 show ?thesis by simp
  next
    case (Inr dat)
    let ?a = "registered_address w1 clientId"
    let ?w2 = "log_Info w1 (''Found stored message for address '' @ ?a)"
    show ?thesis
    proof (cases "WrapWithFlag env COMM_FLAG dat")
      case (Inl err)
      with rf Inr w1 show ?thesis by (simp add: Let_def)
    next
      case m: (Inr m)
      obtain r3 w3 where s: "Send env ?w2 m ?a = (r3, w3)" by (cases "Send env ?w2 m ?a")
      from Send_frame [OF s] w1
      have w3: "dirs w3 = dirs w" "assignedClients w3 = assignedClients w" by simp_all
      show ?thesis
      proof (cases r3)
        case None
        with rf Inr m s w3 Cons.IH [of w3] show ?thesis
          by (simp add: registered_address_def)
      next
        case (Some err)
        with rf Inr m s w3 show ?thesis by (simp add: registered_address_def)
      qed
    qed
  qed
qed

text \<open>
  Claim C9. A fetch that returns a signal (no error from the file system, the envelope
  or the network) returns \<open>NI\<close> when the inbox directory does not exist, and then sends
  nothing; \<open>EI\<close> when it exists and is empty, and then sends nothing; and \<open>SI\<close> otherwise,
  after it has sent, for each file of the inbox in the order of the file names, the file's
  content in a \<open>COMM\<close> envelope to the client's registered address.
\<close>

theorem FetchMessages_signals:
  assumes "FetchMessages env w clientId = (Inr signal, w')"
  shows "case dirs w (''./inboxes/'' @ clientId) of
           None \<Rightarrow> signal = ''NI'' \<and> wire w' = wire w
         | Some d \<Rightarrow>
             if d = [] then signal = ''EI'' \<and> wire w' = wire w
             else signal = ''SI'' \<and>
                  (\<exists>msgs. wire w' = wire w @ map (Pair (registered_address w clientId)) msgs \<and>
                     list_all2 (\<lambda>name m. \<exists>dat.
                         file_content w (''./inboxes/'' @ clientId) name = Some dat \<and>
                         WrapWithFlag env COMM_FLAG dat = Inr m)
                       (sort (map fst d)) msgs)"
proof -
  let ?path = "''./inboxes/'' @ clientId"
  let ?w1 = "w\<lparr>calls := Suc (calls w)\<rparr>"
  let ?w2 = "?w1\<lparr>calls := Suc (calls ?w1)\<rparr>"
  from assms have f1: "fault env (calls w) = None"
    by (auto simp: FetchMessages_def Let_def DirExists_eq split: option.splits)
  show ?thesis
  proof (cases "dirs w ?path")
    case None
    with assms f1 show ?thesis by (auto simp: FetchMessages_def Let_def DirExists_eq)
  next
    case (Some d)
    with assms f1 have f2: "fault env (Suc (calls w)) = None"
      by (auto simp: FetchMessages_def Let_def DirExists_eq ReadDir_eq split: option.splits)
    show ?thesis
    proof (cases "d = []")
      case True
      with assms f1 f2 Some show ?thesis
        by (auto simp: FetchMessages_def Let_def DirExists_eq ReadDir_eq)
    next
      case False
      with assms f1 f2 Some
      have "FetchMessages_loop env clientId ?path (sort (map fst d)) ?w2 = (Inr signal, w')"
        by (auto simp: FetchMessages_def Let_def DirExists_eq ReadDir_eq)
      from FetchMessages_loop_sent [OF this] False Some show ?thesis
        by (simp add: registered_address_def file_content_def)
    qed
  qed
qed

theorem FetchMessages_signals_witness:
  "fst (FetchMessages env0 world_alice ''alice'') = Inr ''SI''
   \<and> wire (snd (FetchMessages env0 world_alice ''alice''))
       = [(''10.0.0.1:9001'', CHR 0xC6 # ''hello'')]
   \<and> fst (FetchMessages env0 world_alice ''bob'') = Inr ''NI''
   \<and> fst (FetchMessages env0 (world_alice\<lparr>dirs := [''./inboxes/alice'' \<mapsto> []]\<rparr>) ''alice'')
       = Inr ''EI''"
proof -
  let ?r = "FetchMessages env0 world_alice ''alice''"
  have f: "fst ?r = Inr ''SI''"
    by (simp add: FetchMessages_def Let_def DirExists_eq ReadDir_eq ReadFile_def Send_eq
          syscall_def env0_simps world_alice_simps COMM_FLAG_def)
  then have h: "?r = (Inr ''SI'', snd ?r)" by (metis prod.collapse)
  have ni: "fst (FetchMessages env0 world_alice ''bob'') = Inr ''NI''"
    by (simp add: FetchMessages_def Let_def DirExists_eq env0_simps world_alice_def)
  have ei: "fst (FetchMessages env0 (world_alice\<lparr>dirs := [''./inboxes/alice'' \<mapsto> []]\<rparr>) ''alice'')
              = Inr ''EI''"
    by (simp add: FetchMessages_def Let_def DirExists_eq ReadDir_eq env0_simps)
  from FetchMessages_signals [OF h] f ni ei show ?thesis
    by (auto simp: world_alice_simps registered_address_def file_content_def env0_simps
          COMM_FLAG_def list_all2_Cons1)
qed

lemma FetchMessages_frame:
  "dirs (snd (FetchMessages env w clientId)) = dirs w \<and>
   assignedClients (snd (FetchMessages env w clientId)) = assignedClients w"
  using FetchMessages_loop_dirs
    [of env clientId "''./inboxes/'' @ clientId" _ "w\<lparr>calls := Suc (Suc (calls w))\<rparr>"]
  by (simp add: FetchMessages_def Let_def DirExists_eq ReadDir_eq split: option.splits)

text \<open>
  Claim C2, as amended. A fetch removes no message from any inbox, whether the send of
  the message completed or failed: the directories (and the registered clients) are the
  same after \<open>FetchMessages\<close> as before. A message therefore stays in the inbox and is
  sent again by a later fetch.
\<close>

theorem FetchMessages_keeps_inbox:
  "dirs (snd (FetchMessages env w clientId)) = dirs w \<and>
   assignedClients (snd (FetchMessages env w clientId)) = assignedClients w"
  by (rule FetchMessages_frame)

text \<open>
  Claim C2, as stated, fails: with one message waiting and every send succeeding, the
  fetch signals \<open>SI\<close> and the message is still in the inbox; a second fetch delivers
  it a second time.
\<close>

theorem FetchMessages_delivers_again_counterexample:
  "fst (FetchMessages env0 world_alice ''alice'') = Inr ''SI''
   \<and> dirs (snd (FetchMessages env0 world_alice ''alice'')) ''./inboxes/alice''
       = Some [(''TMP_MESSAGE_ID.txt'', ''hello'')]
   \<and> wire (snd (FetchMessages env0 (snd (FetchMessages env0 world_alice ''alice'')) ''alice''))
       = [(''10.0.0.1:9001'', CHR 0xC6 # ''hello''), (''10.0.0.1:9001'', CHR 0xC6 # ''hello'')]"
  by (simp add: FetchMessages_def Let_def DirExists_eq ReadDir_eq ReadFile_def Send_def syscall_def
        env0_def world_alice_def index_clients_def COMM_FLAG_def log_Info_def)

section \<open>Sphinx packets at the provider\<close>

lemma ReceivedPacket_relay:
  assumes "ProcessPacket env packet = (dePacket, nextHop, [CHR 0xF1], None)"
      and "ReceivedPacket env w packet = (r, w')"
  shows "(r = None \<longleftrightarrow>
            (\<exists>packetBytes. WrapWithFlag env COMM_FLAG dePacket = Inr packetBytes) \<and>
            fault env (calls w) = None) \<and>
         (r = None \<longrightarrow>
            (\<exists>packetBytes. WrapWithFlag env COMM_FLAG dePacket = Inr packetBytes \<and>
               wire w' = wire w @ [(Address nextHop, packetBytes)])) \<and>
         (r \<noteq> None \<longrightarrow> wire w' = wire w) \<and> dirs w' = dirs w"
proof -
  from assms have fw: "ForwardPacket env (log_Info w ''Received new sphinx packet'') dePacket
                     (Address nextHop) = (r, w')"
    by (simp add: ReceivedPacket_def)
  show ?thesis
  proof (cases "WrapWithFlag env COMM_FLAG dePacket")
    case (Inl err)
    with fw show ?thesis by (auto simp: ForwardPacket_eq)
  next
    case (Inr packetBytes)
    with fw show ?thesis by (cases "fault env (calls w)") (auto simp: ForwardPacket_eq)
  qed
qed

lemma ReceivedPacket_final:
  assumes "ProcessPacket env packet = (dePacket, nextHop, [CHR 0xF0], None)"
      and "ReceivedPacket env w packet = (r, w')"
  shows "(r = None \<longleftrightarrow>
            dirs w (''./inboxes/'' @ Hop.Id nextHop) \<noteq> None \<and>
            fault env (calls w) = None \<and> fault env (Suc (calls w)) = None) \<and>
         (r = None \<longrightarrow>
            file_content w' (''./inboxes/'' @ Hop.Id nextHop) ''TMP_MESSAGE_ID.txt''
              = Some dePacket) \<and>
         wire w' = wire w"
proof -
  from assms have st: "StoreMessage env (log_Info w ''Received new sphinx packet'') dePacket
                     (Hop.Id nextHop) ''TMP_MESSAGE_ID'' = (r, w')"
    by (simp add: ReceivedPacket_def)
  show ?thesis
  proof (cases "fault env (calls w)")
    case (Some e)
    with st show ?thesis by (auto simp: StoreMessage_eq Let_def)
  next
    case f1: None
    show ?thesis
    proof (cases "dirs w (''./inboxes/'' @ Hop.Id nextHop)")
      case None
      with st f1 show ?thesis by (auto simp: StoreMessage_eq Let_def)
    next
      case d: (Some d)
      show ?thesis
      proof (cases "fault env (Suc (calls w))")
        case None
        with st f1 d show ?thesis
          by (auto simp: StoreMessage_eq Let_def file_content_def update_conv')
      next
        case (Some e)
        with st f1 d show ?thesis by (auto simp: StoreMessage_eq Let_def)
      qed
    qed
  qed
qed

lemma ReceivedPacket_other:
  assumes "ProcessPacket env packet = (dePacket, nextHop, flag, None)"
      and "flag \<noteq> [CHR 0xF1]" and "flag \<noteq> [CHR 0xF0]"
      and "ReceivedPacket env w packet = (r, w')"
  shows "r = None \<and> wire w' = wire w \<and> dirs w' = dirs w \<and>
         logs w' = logs w @ [LogInfo ''Received new sphinx packet'',
                             LogInfo ''Sphinx packet flag not recognised'']"
proof -
  from assms have "(r, w') = (None, log_Info (log_Info w ''Received new sphinx packet'')
                                     ''Sphinx packet flag not recognised'')"
    by (simp add: ReceivedPacket_def)
  then show ?thesis by simp
qed

text \<open>
  Claim C8. For a packet that \<open>ProcessPacket\<close> unwraps without error:
  with inner flag \<open>0xF1\<close> (relay), \<open>ReceivedPacket\<close> succeeds exactly when the envelope can
  be built and the dial succeeds, and then the unwrapped packet has been written, in a
  \<open>COMM\<close> envelope, to the address of the next hop; nothing is stored.
  With inner flag \<open>0xF0\<close> (final), it succeeds exactly when the inbox of the id in the
  routing block exists and creating and writing the file succeed, and then the payload is
  the content of the file \<open>TMP_MESSAGE_ID.txt\<close> of that inbox; nothing is sent.
  With any other inner flag, it returns no error, sends nothing and stores nothing: the
  packet is dropped with a log entry.
\<close>

theorem ReceivedPacket_dispatch:
  assumes "ProcessPacket env packet = (dePacket, nextHop, flag, None)"
      and "ReceivedPacket env w packet = (r, w')"
  shows "(flag = [CHR 0xF1] \<longrightarrow>
            (r = None \<longleftrightarrow>
               (\<exists>packetBytes. WrapWithFlag env COMM_FLAG dePacket = Inr packetBytes) \<and>
               fault env (calls w) = None) \<and>
            (r = None \<longrightarrow>
               (\<exists>packetBytes. WrapWithFlag env COMM_FLAG dePacket = Inr packetBytes \<and>
                  wire w' = wire w @ [(Address nextHop, packetBytes)])) \<and>
            (r \<noteq> None \<longrightarrow> wire w' = wire w) \<and> dirs w' = dirs w)
       \<and> (flag = [CHR 0xF0] \<longrightarrow>
            (r = None \<longleftrightarrow>
               dirs w (''./inboxes/'' @ Hop.Id nextHop) \<noteq> None \<and>
               fault env (calls w) = None \<and> fault env (Suc (calls w)) = None) \<and>
            (r = None \<longrightarrow>
               file_content w' (''./inboxes/'' @ Hop.Id nextHop) ''TMP_MESSAGE_ID.txt''
                 = Some dePacket) \<and>
            wire w' = wire w)
       \<and> (flag \<noteq> [CHR 0xF1] \<and> flag \<noteq> [CHR 0xF0] \<longrightarrow>
            r = None \<and> wire w' = wire w \<and> dirs w' = dirs w \<and>
            logs w' = logs w @ [LogInfo ''Received new sphinx packet'',
                                LogInfo ''Sphinx packet flag not recognised''])"
proof (intro conjI)
  show "flag = [CHR 0xF1] \<longrightarrow>
            (r = None \<longleftrightarrow>
               (\<exists>packetBytes. WrapWithFlag env COMM_FLAG dePacket = Inr packetBytes) \<and>
               fault env (calls w) = None) \<and>
            (r = None \<longrightarrow>
               (\<exists>packetBytes. WrapWithFlag env COMM_FLAG dePacket = Inr packetBytes \<and>
                  wire w' = wire w @ [(Address nextHop, packetBytes)])) \<and>
            (r \<noteq> None \<longrightarrow> wire w' = wire w) \<and> dirs w' = dirs w"
    using assms ReceivedPacket_relay [of env packet dePacket nextHop w r w'] by blast
  show "flag = [CHR 0xF0] \<longrightarrow>
            (r = None \<longleftrightarrow>
               dirs w (''./inboxes/'' @ Hop.Id nextHop) \<noteq> None \<and>
               fault env (calls w) = None \<and> fault env (Suc (calls w)) = None) \<and>
            (r = None \<longrightarrow>
               file_content w' (''./inboxes/'' @ Hop.Id nextHop) ''TMP_MESSAGE_ID.txt''
                 = Some dePacket) \<and>
            wire w' = wire w"
    using assms ReceivedPacket_final [of env packet dePacket nextHop w r w'] by blast
  show "flag \<noteq> [CHR 0xF1] \<and> flag \<noteq> [CHR 0xF0] \<longrightarrow>
            r = None \<and> wire w' = wire w \<and> dirs w' = dirs w \<and>
            logs w' = logs w @ [LogInfo ''Received new sphinx packet'',
                                LogInfo ''Sphinx packet flag not recognised'']"
    using assms ReceivedPacket_other [of env packet dePacket nextHop flag w r w'] by blast
qed

theorem ReceivedPacket_dispatch_witness:
  "fst (ReceivedPacket env0 world_alice (CHR 0xF1 # ''10.0.0.7:9000|onion'')) = None
   \<and> wire (snd (ReceivedPacket env0 world_alice (CHR 0xF1 # ''10.0.0.7:9000|onion'')))
       = [(''10.0.0.7:9000'', CHR 0xC6 # ''onion'')]
   \<and> fst (ReceivedPacket env0 world_alice (CHR 0xF0 # ''alice|hi'')) = None
   \<and> file_content (snd (ReceivedPacket env0 world_alice (CHR 0xF0 # ''alice|hi'')))
        ''./inboxes/alice'' ''TMP_MESSAGE_ID.txt'' = Some ''hi''
   \<and> fst (ReceivedPacket env0 world_alice (CHR 0x00 # ''alice|hi'')) = None
   \<and> wire (snd (ReceivedPacket env0 world_alice (CHR 0x00 # ''alice|hi''))) = []
   \<and> dirs (snd (ReceivedPacket env0 world_alice (CHR 0x00 # ''alice|hi''))) = dirs world_alice"
proof -
  let ?relay = "ReceivedPacket env0 world_alice (CHR 0xF1 # ''10.0.0.7:9000|onion'')"
  let ?final = "ReceivedPacket env0 world_alice (CHR 0xF0 # ''alice|hi'')"
  let ?other = "ReceivedPacket env0 world_alice (CHR 0x00 # ''alice|hi'')"
  have pair: "\<And>p :: error option \<times> world. p = (fst p, snd p)" by simp
  from ReceivedPacket_dispatch [OF env0_simps(9) [of "CHR 0xF1"] pair [of ?relay]]
  have relay: "fst ?relay = None \<and> wire (snd ?relay) = [(''10.0.0.7:9000'', CHR 0xC6 # ''onion'')]"
    by (simp add: env0_simps world_alice_simps COMM_FLAG_def)
  from ReceivedPacket_dispatch [OF env0_simps(7) [of "CHR 0xF0"] pair [of ?final]]
  have final: "fst ?final = None \<and>
               file_content (snd ?final) ''./inboxes/alice'' ''TMP_MESSAGE_ID.txt'' = Some ''hi''"
    by (simp add: env0_simps world_alice_simps)
  from ReceivedPacket_dispatch [OF env0_simps(7) [of "CHR 0x00"] pair [of ?other]]
  have other: "fst ?other = None \<and> wire (snd ?other) = [] \<and> dirs (snd ?other) = dirs world_alice"
    by (simp add: world_alice_simps)
  from relay final other show ?thesis by simp
qed

section \<open>What the store path writes\<close>

lemma at_most_one_stored_same:
  "(\<And>path. file_names w' path = file_names w path) \<Longrightarrow> at_most_one_stored w w'"
  by (simp add: at_most_one_stored_def)

lemma at_most_one_stored_dirs:
  "dirs w' = dirs w \<Longrightarrow> at_most_one_stored w w'"
  by (simp add: at_most_one_stored_def file_names_def)

lemma at_most_one_stored_trans:
  assumes "at_most_one_stored w w'" and "at_most_one_stored w' w''"
  shows "at_most_one_stored w w''"
  unfolding at_most_one_stored_def
proof
  fix path
  from assms(1) have a: "file_names w' path = file_names w path \<or>
      (file_names w' path = file_names w path @ [''TMP_MESSAGE_ID.txt''] \<and>
       ''TMP_MESSAGE_ID.txt'' \<notin> set (file_names w path))"
    by (simp add: at_most_one_stored_def)
  from assms(2) have b: "file_names w'' path = file_names w' path \<or>
      (file_names w'' path = file_names w' path @ [''TMP_MESSAGE_ID.txt''] \<and>
       ''TMP_MESSAGE_ID.txt'' \<notin> set (file_names w' path))"
    by (simp add: at_most_one_stored_def)
  from a b show "file_names w'' path = file_names w path \<or>
      (file_names w'' path = file_names w path @ [''TMP_MESSAGE_ID.txt''] \<and>
       ''TMP_MESSAGE_ID.txt'' \<notin> set (file_names w path))"
    by auto
qed

lemma file_names_update:
  "dirs w path = Some d \<Longrightarrow>
   file_names (w\<lparr>dirs := (dirs w)(path \<mapsto> AList.update name b d)\<rparr>) p =
     (if p = path \<and> name \<notin> set (file_names w path) then file_names w p @ [name]
      else file_names w p)"
  by (simp add: file_names_def update_keys)

lemma StoreMessage_at_most_one:
  "at_most_one_stored w (snd (StoreMessage env w message inboxId ''TMP_MESSAGE_ID''))"
proof -
  let ?path = "''./inboxes/'' @ inboxId"
  show ?thesis
  proof (cases "fault env (calls w)")
    case (Some e)
    then show ?thesis by (simp add: StoreMessage_eq at_most_one_stored_dirs)
  next
    case f1: None
    show ?thesis
    proof (cases "dirs w ?path")
      case None
      with f1 show ?thesis by (simp add: StoreMessage_eq at_most_one_stored_dirs)
    next
      case d: (Some d)
      have upd: "\<And>b. at_most_one_stored w
                   (w\<lparr>dirs := (dirs w)(?path \<mapsto> AList.update ''TMP_MESSAGE_ID.txt'' b d)\<rparr>)"
        unfolding at_most_one_stored_def using file_names_update [OF d] by simp
      have frame: "\<And>w1 n l. file_names (w1\<lparr>calls := n\<rparr>) = file_names w1"
                  "\<And>w1 l. file_names (w1\<lparr>logs := l\<rparr>) = file_names w1"
        by (simp_all add: file_names_def fun_eq_iff)
      show ?thesis
      proof (cases "fault env (Suc (calls w))")
        case None
        with f1 d upd [of message] show ?thesis
          by (simp add: StoreMessage_eq at_most_one_stored_def file_names_def)
      next
        case (Some e)
        with f1 d upd [of "[]"] show ?thesis
          by (simp add: StoreMessage_eq at_most_one_stored_def file_names_def)
      qed
    qed
  qed
qed

lemma ForwardPacket_dirs:
  "dirs (snd (ForwardPacket env w sphinxPacket address)) = dirs w"
  by (simp add: ForwardPacket_eq split: sum.splits option.splits)

lemma ReceivedPacket_at_most_one:
  "at_most_one_stored w (snd (ReceivedPacket env w packet))"
proof -
  let ?w0 = "log_Info w ''Received new sphinx packet''"
  have w0: "at_most_one_stored w ?w0" by (simp add: at_most_one_stored_dirs)
  obtain dePacket nextHop flag err where
    p: "ProcessPacket env packet = (dePacket, nextHop, flag, err)"
    by (cases "ProcessPacket env packet")
  have "at_most_one_stored ?w0 (snd (ReceivedPacket env w packet))"
    using p StoreMessage_at_most_one [of ?w0 env dePacket "Hop.Id nextHop"]
    by (cases err)
       (simp_all add: ReceivedPacket_def Let_def at_most_one_stored_dirs ForwardPacket_dirs)
  with w0 show ?thesis by (rule at_most_one_stored_trans)
qed

lemma RegisterNewClient_file_names:
  "file_names (snd (RegisterNewClient env w clientBytes)) path = file_names w path"
  by (auto simp: RegisterNewClient_def Let_def DirExists_eq os_MkdirAll_eq file_names_def
           split: sum.splits option.splits)

lemma HandleAssignRequest_file_names:
  "file_names (snd (HandleAssignRequest env w packet)) path = file_names w path"
proof -
  let ?w0 = "log_Info w ''Received assign request from the client''"
  obtain r w1 where reg: "RegisterNewClient env ?w0 packet = (r, w1)"
    by (cases "RegisterNewClient env ?w0 packet")
  with RegisterNewClient_file_names [of env ?w0 packet path]
  have w1: "file_names w1 path = file_names w path" by (simp add: file_names_def)
  have send: "\<And>b a. file_names (snd (Send env w1 b a)) path = file_names w1 path"
    by (simp add: Send_eq file_names_def split: option.splits)
  from reg w1 send show ?thesis
    by (simp add: HandleAssignRequest_def split: sum.splits prod.splits)
qed

lemma HandlePullRequest_dirs:
  "dirs (snd (HandlePullRequest env w rqsBytes)) = dirs w"
proof (cases "Unmarshal_PullRequest env rqsBytes")
  case (Inl err)
  then show ?thesis by (simp add: HandlePullRequest_def)
next
  case (Inr request)
  let ?w0 = "log_Info w ('' Processing pull request: '' @ ClientId request @ '' ''
                          @ PullRequest.Token request)"
  obtain r w1 where f: "FetchMessages env ?w0 (ClientId request) = (r, w1)"
    by (cases "FetchMessages env ?w0 (ClientId request)")
  with FetchMessages_frame [of env ?w0 "ClientId request"]
  have "dirs w1 = dirs w" by simp
  with Inr f show ?thesis
    by (simp add: HandlePullRequest_def Let_def log_Warning_def split: sum.splits)
qed

lemma HandleConnection_at_most_one:
  "at_most_one_stored w (snd (HandleConnection env w c))"
proof -
  obtain packet uerr where u: "Unmarshal_GeneralPacket env (take 1024 (incoming c)) = (packet, uerr)"
    by (cases "Unmarshal_GeneralPacket env (take 1024 (incoming c))")
  have a: "at_most_one_stored w (snd (HandleAssignRequest env w (Data packet)))"
    by (rule at_most_one_stored_same) (rule HandleAssignRequest_file_names)
  have b: "at_most_one_stored w (snd (ReceivedPacket env w (Data packet)))"
    by (rule ReceivedPacket_at_most_one)
  have c: "at_most_one_stored w (snd (HandlePullRequest env w (Data packet)))"
    by (rule at_most_one_stored_dirs) (rule HandlePullRequest_dirs)
  have d: "at_most_one_stored w (log_Info w ''Packet flag not recognised. Packet dropped'')"
    by (simp add: at_most_one_stored_dirs)
  consider (assign) "Flag packet = ASSIGNE_FLAG"
    | (comm) "Flag packet \<noteq> ASSIGNE_FLAG" "Flag packet = COMM_FLAG"
    | (pull) "Flag packet \<noteq> ASSIGNE_FLAG" "Flag packet \<noteq> COMM_FLAG" "Flag packet = PULL_FLAG"
    | (other) "Flag packet \<noteq> ASSIGNE_FLAG" "Flag packet \<noteq> COMM_FLAG" "Flag packet \<noteq> PULL_FLAG"
    by blast
  then show ?thesis
  proof cases
    case assign
    with u a show ?thesis
      by (cases "HandleAssignRequest env w (Data packet)";
          cases "fst (HandleAssignRequest env w (Data packet))")
         (simp_all add: HandleConnection_def)
  next
    case comm
    with u b show ?thesis
      by (cases "ReceivedPacket env w (Data packet)";
          cases "fst (ReceivedPacket env w (Data packet))")
         (simp_all add: HandleConnection_def)
  next
    case pull
    with u c show ?thesis
      by (cases "HandlePullRequest env w (Data packet)";
          cases "fst (HandlePullRequest env w (Data packet))")
         (simp_all add: HandleConnection_def)
  next
    case other
    with u d show ?thesis by (simp add: HandleConnection_def)
  qed
qed

lemma HandleConnection_sends: "fst (HandleConnection env w c) \<noteq> []"
  by (simp add: HandleConnection_def Let_def split_def)

lemma overlapping_simps [simp]:
  "snd (overlapping r) = snd r" "fst (overlapping r) \<noteq> Accepting"
  by (cases r; cases "fst r"; simp add: overlapping_def)+

lemma Listen_Accepted:
  "ListenForIncomingConnections env w (Accepted c # rest) =
     (let w1 = snd (HandleConnection env (log_Info w ('' Received new connection from ''
                                                       @ RemoteAddr c)) c);
          r = ListenForIncomingConnections env
                (case hd (fst (HandleConnection env (log_Info w ('' Received new connection from ''
                                                       @ RemoteAddr c)) c)) of
                   Some err \<Rightarrow> log_Error w1 err | None \<Rightarrow> w1) rest
      in if reports_before_dispatch env c then overlapping r else r)"
proof -
  let ?h = "HandleConnection env (log_Info w ('' Received new connection from '' @ RemoteAddr c)) c"
  obtain errs w1 where h: "?h = (errs, w1)" by (cases ?h)
  with HandleConnection_sends
         [of env "log_Info w ('' Received new connection from '' @ RemoteAddr c)" c]
  have "errs \<noteq> []" by simp
  then obtain e es where "errs = e # es" by (cases errs) simp_all
  with h show ?thesis by (simp add: Let_def)
qed

declare ListenForIncomingConnections.simps(3) [simp del]

lemma Listen_at_most_one:
  "at_most_one_stored w (snd (ListenForIncomingConnections env w events))"
proof (induction events arbitrary: w)
  case Nil
  show ?case by (simp add: at_most_one_stored_dirs)
next
  case (Cons ev events)
  show ?case
  proof (cases ev)
    case (AcceptError err)
    have "at_most_one_stored w (log_Error w err)"
      by (simp add: at_most_one_stored_dirs log_Error_def)
    with Cons.IH [of "log_Error w err"] AcceptError show ?thesis
      by (auto intro: at_most_one_stored_trans)
  next
    case (Accepted c)
    let ?w0 = "log_Info w ('' Received new connection from '' @ RemoteAddr c)"
    let ?w1 = "snd (HandleConnection env ?w0 c)"
    let ?w2 = "case hd (fst (HandleConnection env ?w0 c)) of
                 Some err \<Rightarrow> log_Error ?w1 err | None \<Rightarrow> ?w1"
    have "at_most_one_stored w ?w0" by (simp add: at_most_one_stored_dirs)
    moreover have "at_most_one_stored ?w0 ?w1" by (rule HandleConnection_at_most_one)
    moreover have "at_most_one_stored ?w1 ?w2"
      by (simp add: at_most_one_stored_dirs log_Error_def split: option.splits)
    ultimately have "at_most_one_stored w ?w2" by (blast intro: at_most_one_stored_trans)
    from this Cons.IH [of ?w2]
    have "at_most_one_stored w (snd (ListenForIncomingConnections env ?w2 events))"
      by (rule at_most_one_stored_trans)
    moreover have "snd (ListenForIncomingConnections env w (Accepted c # events)) =
                   snd (ListenForIncomingConnections env ?w2 events)"
      by (simp only: Listen_Accepted Let_def overlapping_simps if_distrib [of snd] if_cancel)
    ultimately show ?thesis using Accepted by (simp only:)
  qed
qed

lemma file_content_in_names:
  "file_content w path name = Some b \<Longrightarrow> name \<in> set (file_names w path)"
  by (auto simp: file_content_def file_names_def split: option.splits
           dest!: map_of_SomeD intro: rev_image_eqI)

text \<open>
  Claim C6. Every store of the final-hop path writes the file \<open>TMP_MESSAGE_ID.txt\<close> of
  the recipient's inbox. Over any run of the provider's accept loop, whatever the
  connections carry, no directory gains a file other than that one, so an inbox holds at
  most one message written by the store path. And of two successive stores into one
  inbox the second overwrites the first: the file then holds the second payload and the
  inbox has the same files as after the first store.
\<close>

theorem store_path_single_message:
  "at_most_one_stored w (snd (ListenForIncomingConnections env w events))
   \<and> (ProcessPacket env packet1 = (message1, hop1, [CHR 0xF0], None) \<and>
      ProcessPacket env packet2 = (message2, hop2, [CHR 0xF0], None) \<and>
      Hop.Id hop2 = Hop.Id hop1 \<and>
      ReceivedPacket env w packet1 = (None, w1) \<and>
      ReceivedPacket env w1 packet2 = (None, w2) \<longrightarrow>
        file_content w1 (''./inboxes/'' @ Hop.Id hop1) ''TMP_MESSAGE_ID.txt'' = Some message1 \<and>
        file_content w2 (''./inboxes/'' @ Hop.Id hop1) ''TMP_MESSAGE_ID.txt'' = Some message2 \<and>
        file_names w2 (''./inboxes/'' @ Hop.Id hop1) = file_names w1 (''./inboxes/'' @ Hop.Id hop1))"
proof (intro conjI impI)
  show "at_most_one_stored w (snd (ListenForIncomingConnections env w events))"
    by (rule Listen_at_most_one)
next
  let ?path = "''./inboxes/'' @ Hop.Id hop1"
  assume a: "ProcessPacket env packet1 = (message1, hop1, [CHR 0xF0], None) \<and>
      ProcessPacket env packet2 = (message2, hop2, [CHR 0xF0], None) \<and>
      Hop.Id hop2 = Hop.Id hop1 \<and>
      ReceivedPacket env w packet1 = (None, w1) \<and>
      ReceivedPacket env w1 packet2 = (None, w2)"
  from a ReceivedPacket_final [of env packet1 message1 hop1 w None w1]
  show c1: "file_content w1 ?path ''TMP_MESSAGE_ID.txt'' = Some message1" by simp
  from a ReceivedPacket_final [of env packet2 message2 hop2 w1 None w2]
  show "file_content w2 ?path ''TMP_MESSAGE_ID.txt'' = Some message2" by simp
  from c1 have "''TMP_MESSAGE_ID.txt'' \<in> set (file_names w1 ?path)"
    by (rule file_content_in_names)
  moreover from a ReceivedPacket_at_most_one [of w1 env packet2]
  have "at_most_one_stored w1 w2" by simp
  ultimately show "file_names w2 ?path = file_names w1 ?path"
    by (auto simp: at_most_one_stored_def)
qed

theorem store_path_single_message_witness:
  "fst (ReceivedPacket env0 (world_alice\<lparr>dirs := [''./inboxes/alice'' \<mapsto> []]\<rparr>)
          (CHR 0xF0 # ''alice|hi'')) = None
   \<and> fst (ReceivedPacket env0
            (snd (ReceivedPacket env0 (world_alice\<lparr>dirs := [''./inboxes/alice'' \<mapsto> []]\<rparr>)
                    (CHR 0xF0 # ''alice|hi'')))
            (CHR 0xF0 # ''alice|ho'')) = None
   \<and> dirs (snd (ReceivedPacket env0
            (snd (ReceivedPacket env0 (world_alice\<lparr>dirs := [''./inboxes/alice'' \<mapsto> []]\<rparr>)
                    (CHR 0xF0 # ''alice|hi'')))
            (CHR 0xF0 # ''alice|ho''))) ''./inboxes/alice''
       = Some [(''TMP_MESSAGE_ID.txt'', ''ho'')]"
proof -
  let ?w = "world_alice\<lparr>dirs := [''./inboxes/alice'' \<mapsto> []]\<rparr>"
  let ?r1 = "ReceivedPacket env0 ?w (CHR 0xF0 # ''alice|hi'')"
  let ?r2 = "ReceivedPacket env0 (snd ?r1) (CHR 0xF0 # ''alice|ho'')"
  have d1: "dirs (snd ?r1) ''./inboxes/alice'' = Some [(''TMP_MESSAGE_ID.txt'', ''hi'')]"
    and f1: "fst ?r1 = None" and c1: "calls (snd ?r1) = 2"
    by (simp_all add: ReceivedPacket_def Let_def env0_simps StoreMessage_eq world_alice_simps)
  have d2: "dirs (snd ?r2) ''./inboxes/alice'' = Some [(''TMP_MESSAGE_ID.txt'', ''ho'')]"
    and f2: "fst ?r2 = None"
    by (simp_all add: ReceivedPacket_def [of env0 "snd ?r1"] Let_def env0_simps StoreMessage_eq d1)
  from f1 have h1: "?r1 = (None, snd ?r1)" by (metis prod.collapse)
  from f2 have h2: "?r2 = (None, snd ?r2)" by (metis prod.collapse)
  from store_path_single_message
         [of ?w env0 "[]" "CHR 0xF0 # ''alice|hi''" "''hi''" "\<lparr>Hop.Id = ''alice'', Address = ''alice''\<rparr>"
             "CHR 0xF0 # ''alice|ho''" "''ho''" "\<lparr>Hop.Id = ''alice'', Address = ''alice''\<rparr>"
             "snd ?r1" "snd ?r2"]
       h1 h2 f1 f2 d2
  show ?thesis by (simp add: env0_simps)
qed

section \<open>The accept loops\<close>



text \<open>
  A connection whose read fails or whose message does not parse takes the run out of
  the sequential regime: whatever follows, the loop is not left simply accepting.
\<close>

lemma Listen_overlapping:
  "reports_before_dispatch env c \<Longrightarrow>
   fst (ListenForIncomingConnections env w (Accepted c # rest)) \<noteq> Accepting"
  by (simp add: Listen_Accepted Let_def)




end
